theory Spec2Isabelle
  imports Complex_Main "HOL-Library.Multiset"
begin

section \<open>Errors raised by the program and its libraries\<close>

text \<open>
  Every exception the modelled code can raise is a value of \<open>py_error\<close>; a function
  that may raise returns \<open>py_error + 'a\<close>, with \<open>Inl\<close> for the exception.
\<close>

datatype py_error =
    KeyError string
  | ValueError string
  | IndexError
  | TypeError
  | AttributeError
  | HTTPError nat
  | ConnectionError
  | JSONDecodeError
  | OutOfBoundsDatetime

section \<open>Data frames\<close>

text \<open>
  A pandas DataFrame is modelled by its column labels, its row labels (the index) and
  its rows in positional order. Rows are typed records. A \<open>date\<close> is a point in
  time, held as pandas holds a timestamp: an integer count of nanoseconds since the
  epoch; the range limits of pandas timestamps are not modelled. \<open>polarity\<close> and \<open>Close\<close> are floats in the program and
  are kept abstract (type variables): the aligner only copies them.
\<close>

record 'r frame =
  columns :: "string list"
  index :: "nat list"
  rows :: "'r list"

record dated =
  date :: int

record 'p sent_row = dated +
  polarity :: 'p

record 'c price_row = dated +
  Close :: 'c

text \<open>
  A merged row carries the sentiment row's columns and the price's \<open>Close\<close>;
  \<open>None\<close> is the missing value (NaN) that a join miss leaves in the column.
\<close>

record ('p, 'c) merged_row = "'p sent_row" +
  Close :: "'c option"

text \<open>
  \<open>pd.DataFrame(rows)\<close> on a list of dicts that all have the keys \<open>keys\<close>: the
  columns are the keys met in the rows, so a frame built from no rows has no columns.
  The index is \<open>0, 1, ..\<close>.
\<close>

definition DataFrame :: "string list \<Rightarrow> 'r list \<Rightarrow> 'r frame" where
  "DataFrame keys rs =
     \<lparr>columns = (if rs = [] then [] else keys), index = [0..<length rs], rows = rs\<rparr>"

text \<open>
  The frames the aligner is specified on: a sentiment series and a price series as
  frames with their columns present (also when the series is empty).
\<close>

definition sent_frame :: "'p sent_row list \<Rightarrow> 'p sent_row frame" where
  "sent_frame S = \<lparr>columns = [''date'', ''polarity''], index = [0..<length S], rows = S\<rparr>"

definition price_frame :: "'c price_row list \<Rightarrow> 'c price_row frame" where
  "price_frame P = \<lparr>columns = [''date'', ''Close''], index = [0..<length P], rows = P\<rparr>"

subsection \<open>Sorting a frame by date\<close>

text \<open>
  \<open>df.sort_values("date")\<close> computes an indexer with numpy's \<open>argsort\<close> on the key
  column and takes the rows in that order. The sort kind is pandas' default
  (quicksort), which is not documented to be stable, so \<open>argsort\<close> is a parameter
  of the model: a function from the key column to a list of positions.
  \<open>argsort_ok\<close> is what every sort kind guarantees on a key column: the indexer is
  a permutation of the positions and the keys read in that order are non-decreasing.
\<close>

type_synonym argsort = "int list \<Rightarrow> nat list"

definition argsort_ok :: "argsort \<Rightarrow> int list \<Rightarrow> bool" where
  "argsort_ok argsort ks \<longleftrightarrow>
     sort (argsort ks) = [0..<length ks] \<and> sorted (map (\<lambda>i. ks ! i) (argsort ks))"

text \<open>The stable indexer: positions ordered by key, equal keys in input order.\<close>

definition stable_argsort :: argsort where
  "stable_argsort ks = map snd (sort_key fst (zip ks [0..<length ks]))"


text \<open>\<open>take\<close>: the rows (and their labels) at the given positions; out of bounds raises.\<close>

definition take_rows :: "'r frame \<Rightarrow> nat list \<Rightarrow> py_error + 'r frame" where
  "take_rows df indexer =
     (let labelled = zip (index df) (rows df) in
      if list_all (\<lambda>i. i < length labelled) indexer
      then Inr (df\<lparr>index := map (\<lambda>i. fst (labelled ! i)) indexer,
                   rows := map (\<lambda>i. snd (labelled ! i)) indexer\<rparr>)
      else Inl IndexError)"

text \<open>\<open>df.sort_values("date")\<close>: KeyError when the frame has no such column.\<close>

definition sort_values :: "argsort \<Rightarrow> ('a dated_scheme) frame \<Rightarrow> py_error + ('a dated_scheme) frame" where
  "sort_values argsort df =
     (if ''date'' \<in> set (columns df)
      then take_rows df (argsort (map date (rows df)))
      else Inl (KeyError ''date''))"

text \<open>\<open>df.reset_index(drop=True)\<close>: the row labels become \<open>0, 1, ..\<close> again.\<close>

definition reset_index :: "'r frame \<Rightarrow> 'r frame" where
  "reset_index df = df\<lparr>index := [0..<length (rows df)]\<rparr>"

subsection \<open>The backward as-of join\<close>

text \<open>
  pandas' \<open>asof_join_backward\<close> keeps one cursor \<open>right_pos\<close> into the right keys.
  For each left key the inner loop advances the cursor while the right key under it
  is \<open>\<le>\<close> the left key (exact matches allowed), then steps back by one; the cursor
  left there (\<open>-1\<close> when nothing qualified) is the right position for that left row.
\<close>

function advance :: "int list \<Rightarrow> int \<Rightarrow> nat \<Rightarrow> nat" where
  "advance right_values lv right_pos =
     (if right_pos < length right_values \<and> right_values ! right_pos \<le> lv
      then advance right_values lv (Suc right_pos)
      else right_pos)"
  by pat_completeness auto
termination
  by (relation "measure (\<lambda>(right_values, lv, right_pos). length right_values - right_pos)") auto

declare advance.simps [simp del]

fun asof_join_backward :: "int list \<Rightarrow> int list \<Rightarrow> int \<Rightarrow> int list" where
  "asof_join_backward [] right_values right_pos = []"
| "asof_join_backward (lv # left_values) right_values right_pos =
     (let pos0 = (if right_pos < 0 then 0 else right_pos);
          pos1 = int (advance right_values lv (nat pos0)) - 1
      in pos1 # asof_join_backward left_values right_values pos1)"

text \<open>The output row for a left row and its right position; \<open>-1\<close> gives the missing value.\<close>

definition attach :: "'c price_row list \<Rightarrow> 'p sent_row \<Rightarrow> int \<Rightarrow> ('p, 'c) merged_row" where
  "attach prices s pos =
     \<lparr>date = date s, polarity = polarity s,
      Close = (if pos < 0 then None else Some (price_row.Close (prices ! nat pos)))\<rparr>"

text \<open>
  \<open>pd.merge_asof(left, right, on="date", direction="backward")\<close>: both frames need
  the key column, both key columns must be sorted (ValueError otherwise); the result
  has the left columns followed by the right columns other than the key, a fresh
  index and one row per left row.
\<close>

definition merge_asof ::
  "'p sent_row frame \<Rightarrow> 'c price_row frame \<Rightarrow> py_error + ('p, 'c) merged_row frame" where
  "merge_asof left right =
     (if ''date'' \<notin> set (columns left) \<or> ''date'' \<notin> set (columns right)
      then Inl (KeyError ''date'')
      else
        let left_values = map date (rows left);
            right_values = map date (rows right)
        in if \<not> sorted left_values then Inl (ValueError ''left keys must be sorted'')
           else if \<not> sorted right_values then Inl (ValueError ''right keys must be sorted'')
           else
             let right_indexer = asof_join_backward left_values right_values 0
             in Inr \<lparr>columns = columns left @ filter (\<lambda>c. c \<noteq> ''date'') (columns right),
                     index = [0..<length (rows left)],
                     rows = map2 (attach (rows right)) (rows left) right_indexer\<rparr>)"

subsection \<open>merge_df\<close>

definition merge_df ::
  "argsort \<Rightarrow> 'p sent_row frame \<Rightarrow> 'c price_row frame \<Rightarrow> py_error + ('p, 'c) merged_row frame" where
  "merge_df argsort sent_df price_df =
     (case sort_values argsort sent_df of
        Inl e \<Rightarrow> Inl e
      | Inr s1 \<Rightarrow>
          let sent_df' = reset_index s1 in
          (case sort_values argsort price_df of
             Inl e \<Rightarrow> Inl e
           | Inr p1 \<Rightarrow>
               let price_df' = reset_index p1 in
               merge_asof sent_df' price_df'))"

section \<open>The scorer\<close>

text \<open>
  A raw item as the scorer reads it: a dict with a string under \<open>"text"\<close> (field
  \<open>item_text\<close>) and an integer number of seconds under \<open>"created_utc"\<close>. The type
  leaves out dicts with other values there (\<open>TextBlob\<close> raises TypeError on a text that
  is not a string).
\<close>

record raw_item =
  item_text :: string
  created_utc :: int

text \<open>
  \<open>pd.to_datetime(secs, unit="s")\<close>: the time point \<open>secs\<close> seconds after the epoch, or
  OutOfBoundsDatetime when pandas cannot represent it. Which counts of seconds are
  representable depends on the resolution the installed pandas gives the timestamp, so
  the range is a parameter, \<open>representable\<close>. \<open>int64_seconds\<close> is the widest range any
  resolution offers, a signed 64-bit count of seconds.
\<close>

definition timestamp_ns :: "int \<Rightarrow> int" where
  "timestamp_ns secs = secs * 1000000000"

definition to_datetime :: "(int \<Rightarrow> bool) \<Rightarrow> int \<Rightarrow> py_error + int" where
  "to_datetime representable secs =
     (if representable secs then Inr (timestamp_ns secs) else Inl OutOfBoundsDatetime)"

definition int64_seconds :: "int \<Rightarrow> bool" where
  "int64_seconds secs \<longleftrightarrow> - (2 ^ 63) < secs \<and> secs < 2 ^ 63"

text \<open>
  The loop of \<open>analyze_sentiments\<close>: one row is appended per entry, in input order; the
  first timestamp that cannot be converted raises. \<open>polarity_of\<close> stands for
  \<open>TextBlob(txt).sentiment.polarity\<close>, the external scoring function.
\<close>

fun score_rows ::
  "(int \<Rightarrow> bool) \<Rightarrow> (string \<Rightarrow> 'p) \<Rightarrow> raw_item list \<Rightarrow> 'p sent_row list \<Rightarrow>
   py_error + 'p sent_row list" where
  "score_rows representable polarity_of [] rs = Inr rs"
| "score_rows representable polarity_of (entry # data) rs =
     (case to_datetime representable (created_utc entry) of
        Inl e \<Rightarrow> Inl e
      | Inr d \<Rightarrow>
          score_rows representable polarity_of data
            (rs @ [\<lparr>date = d, polarity = polarity_of (item_text entry)\<rparr>]))"

text \<open>\<open>analyze_sentiments\<close>: the frame built from the rows, sorted by date.\<close>

definition analyze_sentiments ::
  "(int \<Rightarrow> bool) \<Rightarrow> (string \<Rightarrow> 'p) \<Rightarrow> argsort \<Rightarrow> raw_item list \<Rightarrow>
   py_error + 'p sent_row frame" where
  "analyze_sentiments representable polarity_of argsort data =
     (case score_rows representable polarity_of data [] of
        Inl e \<Rightarrow> Inl e
      | Inr rs \<Rightarrow> sort_values argsort (DataFrame [''date'', ''polarity''] rs))"

subsection \<open>The caller\<close>

text \<open>
  The script after the fetch: it stops with a warning when no data came back, and
  otherwise scores, gets the prices and merges. \<open>prices\<close> stands for the outcome of
  \<open>get_price_df\<close>, which the script calls between scoring and merging.
\<close>

datatype 'a outcome = Stopped string | Raised py_error | Done 'a

definition run_analysis ::
  "(int \<Rightarrow> bool) \<Rightarrow> (string \<Rightarrow> 'p) \<Rightarrow> argsort \<Rightarrow> (py_error + 'c price_row frame) \<Rightarrow>
   raw_item list \<Rightarrow> ('p, 'c) merged_row frame outcome" where
  "run_analysis representable polarity_of argsort prices data =
     (if data = [] then Stopped ''No data returned from Pushshift.''
      else
        (case analyze_sentiments representable polarity_of argsort data of
           Inl e \<Rightarrow> Raised e
         | Inr sent_df \<Rightarrow>
             (case prices of
                Inl e \<Rightarrow> Raised e
              | Inr price_df \<Rightarrow>
                  (case merge_df argsort sent_df price_df of
                     Inl e \<Rightarrow> Raised e
                   | Inr merged \<Rightarrow> Done merged))))"

section \<open>The collector\<close>

subsection \<open>JSON values and the Python operations applied to them\<close>

text \<open>
  What \<open>resp.json()\<close> can return. A dict is an association list (keys distinct, looked
  up with \<open>map_of\<close>); \<open>JNull\<close> is Python's \<open>None\<close>.
\<close>

datatype json =
    JNull
  | JBool bool
  | JInt int
  | JFloat real
  | JStr string
  | JArr "json list"
  | JObj "(string \<times> json) list"

text \<open>Truth value of a Python object, as \<open>or\<close> tests it.\<close>

fun truthy :: "json \<Rightarrow> bool" where
  "truthy JNull = False"
| "truthy (JBool b) = b"
| "truthy (JInt n) = (n \<noteq> 0)"
| "truthy (JFloat x) = (x \<noteq> 0)"
| "truthy (JStr s) = (s \<noteq> [])"
| "truthy (JArr xs) = (xs \<noteq> [])"
| "truthy (JObj kvs) = (kvs \<noteq> [])"

text \<open>\<open>x or y\<close>.\<close>

definition py_or :: "json \<Rightarrow> json \<Rightarrow> json" where
  "py_or x y = (if truthy x then x else y)"

text \<open>\<open>d.get(key, dflt)\<close> on a dict; \<open>d.get(key)\<close> is \<open>dict_get d key JNull\<close>.\<close>

definition dict_get :: "(string \<times> json) list \<Rightarrow> string \<Rightarrow> json \<Rightarrow> json" where
  "dict_get d key dflt = (case map_of d key of Some v \<Rightarrow> v | None \<Rightarrow> dflt)"

text \<open>
  \<open>a + b\<close> where one operand is known to be a string, as in both additions of the
  program: two strings concatenate, anything else with a string is a TypeError.
\<close>

fun str_add :: "json \<Rightarrow> json \<Rightarrow> py_error + json" where
  "str_add (JStr a) (JStr b) = Inr (JStr (a @ b))"
| "str_add a b = Inl TypeError"

text \<open>
  The values a \<open>for\<close> loop draws from an object: the elements of a list, the
  characters of a string, the keys of a dict; other values are not iterable.
\<close>

fun py_iter :: "json \<Rightarrow> py_error + json list" where
  "py_iter (JArr xs) = Inr xs"
| "py_iter (JStr s) = Inr (map (\<lambda>c. JStr [c]) s)"
| "py_iter (JObj kvs) = Inr (map (\<lambda>kv. JStr (fst kv)) kvs)"
| "py_iter v = Inl TypeError"

subsection \<open>Normalising one item\<close>

datatype kind = submission | comment

text \<open>
  The body of the inner loop: the dict appended to \<open>results\<close> for one fetched item.
  \<open>item.get\<close> needs \<open>item\<close> to be a dict (AttributeError otherwise).
\<close>

definition raw_item_of :: "kind \<Rightarrow> json \<Rightarrow> py_error + json" where
  "raw_item_of knd item =
     (case item of
        JObj d \<Rightarrow>
          (case (if knd = submission
                 then (case str_add (py_or (dict_get d ''title'' JNull) (JStr [])) (JStr '' '') of
                         Inl e \<Rightarrow> Inl e
                       | Inr a \<Rightarrow> str_add a (py_or (dict_get d ''selftext'' JNull) (JStr [])))
                 else Inr (dict_get d ''body'' (JStr []))) of
             Inl e \<Rightarrow> Inl e
           | Inr txt \<Rightarrow>
               Inr (JObj [(''text'', txt),
                          (''created_utc'', dict_get d ''created_utc'' (JInt 0))]))
      | _ \<Rightarrow> Inl AttributeError)"

fun append_items :: "kind \<Rightarrow> json list \<Rightarrow> json list \<Rightarrow> py_error + json list" where
  "append_items knd [] results = Inr results"
| "append_items knd (item # items) results =
     (case raw_item_of knd item of
        Inl e \<Rightarrow> Inl e
      | Inr r \<Rightarrow> append_items knd items (results @ [r]))"

subsection \<open>Requests\<close>

text \<open>
  A request is its URL, its query parameters and its headers. The network is a
  parameter: the reply to a request may depend on the requests issued before it.
  A reply is a connection failure, or a response with its status code and, when the
  body is valid JSON, the parsed body. The state threaded through the collector is
  the list of the requests issued so far.
\<close>

record request =
  url :: string
  params :: "(string \<times> json) list"
  headers :: "(string \<times> string) list"

datatype reply = NetworkError | Response nat "json option"

type_synonym network = "request list \<Rightarrow> request \<Rightarrow> reply"

definition PUSHSHIFT_BASE :: string where
  "PUSHSHIFT_BASE = ''https://api.pushshift.io/reddit/search''"

definition HEADERS :: "(string \<times> string) list" where
  "HEADERS = [(''User-Agent'', ''crypto-sentiment-analyzer/1.0'')]"

definition kind_name :: "kind \<Rightarrow> string" where
  "kind_name knd = (case knd of submission \<Rightarrow> ''submission'' | comment \<Rightarrow> ''comment'')"

definition mk_request :: "string \<Rightarrow> int \<Rightarrow> kind \<Rightarrow> string \<Rightarrow> request" where
  "mk_request ticker post_limit knd sub =
     \<lparr>url = PUSHSHIFT_BASE @ ''/'' @ kind_name knd @ ''/'',
      params = [(''subreddit'', JStr sub),
                (''q'', JStr ticker),
                (''size'', JInt post_limit),
                (''fields'', if knd = submission
                             then JArr [JStr ''title'', JStr ''selftext'', JStr ''created_utc'']
                             else JArr [JStr ''body'', JStr ''created_utc'']),
                (''sort'', JStr ''desc''),
                (''sort_type'', JStr ''created_utc'')],
      headers = HEADERS\<rparr>"

text \<open>\<open>resp.raise_for_status()\<close> raises HTTPError for a status from 400 to 599.\<close>

definition error_status :: "nat \<Rightarrow> bool" where
  "error_status st \<longleftrightarrow> 400 \<le> st \<and> st < 600"

text \<open>
  One pass of the loop body up to the inner loop: issue the request, raise for an
  error status, parse the body, read \<open>"data"\<close> (default \<open>[]\<close>) and start iterating it.
\<close>

definition get_items ::
  "network \<Rightarrow> string \<Rightarrow> int \<Rightarrow> kind \<Rightarrow> string \<Rightarrow> request list \<Rightarrow>
   (py_error + json list) \<times> request list" where
  "get_items net ticker post_limit knd sub issued =
     (let req = mk_request ticker post_limit knd sub in
      (case net issued req of
         NetworkError \<Rightarrow> Inl ConnectionError
       | Response st body \<Rightarrow>
           if error_status st then Inl (HTTPError st)
           else (case body of
                   None \<Rightarrow> Inl JSONDecodeError
                 | Some (JObj d) \<Rightarrow> py_iter (dict_get d ''data'' (JArr []))
                 | Some _ \<Rightarrow> Inl AttributeError),
       issued @ [req]))"

fun sub_loop ::
  "network \<Rightarrow> string \<Rightarrow> int \<Rightarrow> kind \<Rightarrow> string list \<Rightarrow> json list \<Rightarrow> request list \<Rightarrow>
   (py_error + json list) \<times> request list" where
  "sub_loop net ticker post_limit knd [] results issued = (Inr results, issued)"
| "sub_loop net ticker post_limit knd (sub # subs) results issued =
     (case get_items net ticker post_limit knd sub issued of
        (Inl e, issued') \<Rightarrow> (Inl e, issued')
      | (Inr items, issued') \<Rightarrow>
          (case append_items knd items results of
             Inl e \<Rightarrow> (Inl e, issued')
           | Inr results' \<Rightarrow> sub_loop net ticker post_limit knd subs results' issued'))"

fun kind_loop ::
  "network \<Rightarrow> string \<Rightarrow> int \<Rightarrow> kind list \<Rightarrow> string list \<Rightarrow> json list \<Rightarrow> request list \<Rightarrow>
   (py_error + json list) \<times> request list" where
  "kind_loop net ticker post_limit [] subreddits results issued = (Inr results, issued)"
| "kind_loop net ticker post_limit (knd # kinds) subreddits results issued =
     (case sub_loop net ticker post_limit knd subreddits results issued of
        (Inl e, issued') \<Rightarrow> (Inl e, issued')
      | (Inr results', issued') \<Rightarrow> kind_loop net ticker post_limit kinds subreddits results' issued')"

text \<open>\<open>fetch_reddit_data\<close>: the result or the exception, and the requests it issued.\<close>

definition fetch_reddit_data ::
  "network \<Rightarrow> string \<Rightarrow> string list \<Rightarrow> int \<Rightarrow> (py_error + json list) \<times> request list" where
  "fetch_reddit_data net ticker subreddits post_limit =
     kind_loop net ticker post_limit [submission, comment] subreddits [] []"

section \<open>merge_df on Python objects\<close>

text \<open>
  \<open>merge_df\<close> above is the function on frame values. To state that the call has no
  side effect, the same source lines are read here with Python's objects: a variable
  holds a reference, the frames live in a store (one list of objects per frame type, a
  reference is a position in it), and each pandas call of \<open>merge_df\<close>
  (\<open>sort_values\<close> and \<open>reset_index\<close> without \<open>inplace\<close>, \<open>merge_asof\<close>) returns a new
  frame object. The assignments to \<open>sent_df\<close> and \<open>price_df\<close> rebind the function's own
  local names.
\<close>

record ('p, 'c) store =
  sent_objs :: "'p sent_row frame list"
  price_objs :: "'c price_row frame list"
  merged_objs :: "('p, 'c) merged_row frame list"

definition new_sent :: "'p sent_row frame \<Rightarrow> ('p, 'c) store \<Rightarrow> nat \<times> ('p, 'c) store" where
  "new_sent f st = (length (sent_objs st), st\<lparr>sent_objs := sent_objs st @ [f]\<rparr>)"

definition new_price :: "'c price_row frame \<Rightarrow> ('p, 'c) store \<Rightarrow> nat \<times> ('p, 'c) store" where
  "new_price f st = (length (price_objs st), st\<lparr>price_objs := price_objs st @ [f]\<rparr>)"

definition new_merged :: "('p, 'c) merged_row frame \<Rightarrow> ('p, 'c) store \<Rightarrow> nat \<times> ('p, 'c) store" where
  "new_merged f st = (length (merged_objs st), st\<lparr>merged_objs := merged_objs st @ [f]\<rparr>)"

definition merge_df_call ::
  "argsort \<Rightarrow> nat \<Rightarrow> nat \<Rightarrow> ('p, 'c) store \<Rightarrow> (py_error + nat) \<times> ('p, 'c) store" where
  "merge_df_call argsort sent_df price_df st =
     (case sort_values argsort (sent_objs st ! sent_df) of
        Inl e \<Rightarrow> (Inl e, st)
      | Inr f1 \<Rightarrow>
          let (s1, st1) = new_sent f1 st;
              (sent_df', st2) = new_sent (reset_index (sent_objs st1 ! s1)) st1
          in (case sort_values argsort (price_objs st2 ! price_df) of
                Inl e \<Rightarrow> (Inl e, st2)
              | Inr g1 \<Rightarrow>
                  let (p1, st3) = new_price g1 st2;
                      (price_df', st4) = new_price (reset_index (price_objs st3 ! p1)) st3
                  in (case merge_asof (sent_objs st4 ! sent_df') (price_objs st4 ! price_df') of
                        Inl e \<Rightarrow> (Inl e, st4)
                      | Inr m \<Rightarrow>
                          let (merged, st5) = new_merged m st4
                          in (Inr merged, st5))))"

text \<open>What a call returned, as a value: the exception, or the frame the reference points to.\<close>

definition result_value ::
  "(py_error + nat) \<times> ('p, 'c) store \<Rightarrow> py_error + ('p, 'c) merged_row frame" where
  "result_value r = (case fst r of Inl e \<Rightarrow> Inl e | Inr ref \<Rightarrow> Inr (merged_objs (snd r) ! ref))"

text \<open>The objects of \<open>st\<close> are all still there, unchanged, in \<open>st'\<close>.\<close>

definition preserved :: "('p, 'c) store \<Rightarrow> ('p, 'c) store \<Rightarrow> bool" where
  "preserved st st' \<longleftrightarrow>
     take (length (sent_objs st)) (sent_objs st') = sent_objs st \<and>
     take (length (price_objs st)) (price_objs st') = price_objs st \<and>
     take (length (merged_objs st)) (merged_objs st') = merged_objs st"

section \<open>Specification vocabulary\<close>

text \<open>
  What the specification says of the join, in its own words: the \<open>close\<close> attached to
  a point dated \<open>d\<close> is that of a price point with the greatest date \<open>\<le> d\<close>, and is
  missing when no price point has a date \<open>\<le> d\<close>.
\<close>

definition backward_match :: "'c price_row list \<Rightarrow> int \<Rightarrow> 'c option \<Rightarrow> bool" where
  "backward_match P d c \<longleftrightarrow>
     (case c of
        None \<Rightarrow> \<forall>p\<in>set P. d < date p
      | Some v \<Rightarrow> \<exists>p\<in>set P. date p \<le> d \<and> price_row.Close p = v \<and>
                           (\<forall>q\<in>set P. date q \<le> d \<longrightarrow> date q \<le> date p))"

text \<open>
  The price points a point dated \<open>t\<close> can be matched with: those of \<open>P\<close> with the
  greatest date \<open>\<le> t\<close>. \<open>close_determined\<close> says that they all carry the same \<open>Close\<close>, as
  they do when that date occurs once in \<open>P\<close>.
\<close>

definition latest_at :: "'c price_row list \<Rightarrow> int \<Rightarrow> 'c price_row \<Rightarrow> bool" where
  "latest_at P t p \<longleftrightarrow>
     p \<in> set P \<and> date p \<le> t \<and> (\<forall>q\<in>set P. date q \<le> t \<longrightarrow> date q \<le> date p)"

definition close_determined :: "'c price_row list \<Rightarrow> int \<Rightarrow> bool" where
  "close_determined P t \<longleftrightarrow>
     (\<forall>p\<in>set P. \<forall>q\<in>set P. latest_at P t p \<longrightarrow> latest_at P t q \<longrightarrow>
        price_row.Close p = price_row.Close q)"

text \<open>The sentiment point a merged row was made from.\<close>

definition sent_of :: "('p, 'c) merged_row \<Rightarrow> 'p sent_row" where
  "sent_of m = \<lparr>date = date m, polarity = polarity m\<rparr>"

text \<open>Auxiliary notions of the proofs: the number of keys \<open>\<le> v\<close>, and rows in sorted order.\<close>

definition count_le :: "int list \<Rightarrow> int \<Rightarrow> nat" where
  "count_le ks v = length (filter (\<lambda>r. r \<le> v) ks)"

definition sorted_rows :: "argsort \<Rightarrow> ('a dated_scheme) list \<Rightarrow> ('a dated_scheme) list" where
  "sorted_rows argsort xs = map (\<lambda>i. xs ! i) (argsort (map date xs))"

text \<open>
  The collector's contract in the specification's words. A text field that is absent
  counts as the empty string; a post's text is its title and body joined by a space, a
  comment's text is its body; an absent timestamp counts as 0.
\<close>

definition str_field :: "(string \<times> json) list \<Rightarrow> string \<Rightarrow> string" where
  "str_field d key = (case map_of d key of Some (JStr s) \<Rightarrow> s | _ \<Rightarrow> [])"

definition spec_text :: "kind \<Rightarrow> (string \<times> json) list \<Rightarrow> string" where
  "spec_text knd d =
     (if knd = submission then str_field d ''title'' @ '' '' @ str_field d ''selftext''
      else str_field d ''body'')"

definition spec_timestamp :: "(string \<times> json) list \<Rightarrow> int" where
  "spec_timestamp d = (case map_of d ''created_utc'' of Some (JInt n) \<Rightarrow> n | _ \<Rightarrow> 0)"

text \<open>
  The fields present in a fetched item have their expected JSON types: \<open>title\<close> and
  \<open>selftext\<close> of a post are strings or null, \<open>body\<close> of a comment is a string,
  \<open>created_utc\<close> is an integer. Absent fields are allowed throughout.
\<close>

fun str_or_null :: "json option \<Rightarrow> bool" where
  "str_or_null None = True"
| "str_or_null (Some JNull) = True"
| "str_or_null (Some (JStr s)) = True"
| "str_or_null (Some v) = False"

fun str_only :: "json option \<Rightarrow> bool" where
  "str_only None = True"
| "str_only (Some (JStr s)) = True"
| "str_only (Some v) = False"

fun int_only :: "json option \<Rightarrow> bool" where
  "int_only None = True"
| "int_only (Some (JInt n)) = True"
| "int_only (Some v) = False"

definition well_typed :: "kind \<Rightarrow> (string \<times> json) list \<Rightarrow> bool" where
  "well_typed knd d \<longleftrightarrow>
     (if knd = submission
      then str_or_null (map_of d ''title'') \<and> str_or_null (map_of d ''selftext'')
      else str_only (map_of d ''body'')) \<and>
     int_only (map_of d ''created_utc'')"

text \<open>The requests of a run, in the order the two loops issue them.\<close>

definition planned_requests :: "string \<Rightarrow> string list \<Rightarrow> int \<Rightarrow> request list" where
  "planned_requests ticker subreddits post_limit =
     concat (map (\<lambda>knd. map (mk_request ticker post_limit knd) subreddits) [submission, comment])"

section \<open>Proofs: the cursor scan\<close>

lemma sorted_takeWhile_filter:
  "sorted (xs::int list) \<Longrightarrow> takeWhile (\<lambda>r. r \<le> v) xs = filter (\<lambda>r. r \<le> v) xs"
  by (induction xs) (auto intro!: filter_False[symmetric])

lemma count_le_takeWhile:
  "sorted ks \<Longrightarrow> count_le ks v = length (takeWhile (\<lambda>r. r \<le> v) ks)"
  by (simp add: count_le_def sorted_takeWhile_filter)

lemma count_le_length: "count_le ks v \<le> length ks"
  by (simp add: count_le_def)

lemma count_le_mono: "v \<le> w \<Longrightarrow> count_le ks v \<le> count_le ks w"
  unfolding count_le_def by (induction ks) auto

lemma nth_le_iff_count_le:
  assumes "sorted ks" and "j < length ks"
  shows "ks ! j \<le> v \<longleftrightarrow> j < count_le ks v"
proof (cases "j < length (takeWhile (\<lambda>r. r \<le> v) ks)")
  case True
  then have "takeWhile (\<lambda>r. r \<le> v) ks ! j \<in> set (takeWhile (\<lambda>r. r \<le> v) ks)"
    by (rule nth_mem)
  then have "takeWhile (\<lambda>r. r \<le> v) ks ! j \<le> v"
    by (rule set_takeWhileD[THEN conjunct2])
  with True assms show ?thesis
    by (simp add: takeWhile_nth count_le_takeWhile)
next
  case False
  let ?k = "length (takeWhile (\<lambda>r. r \<le> v) ks)"
  from False assms have k: "?k < length ks" "?k \<le> j" by auto
  then have "\<not> ks ! ?k \<le> v" by (intro nth_length_takeWhile)
  moreover from assms k have "ks ! ?k \<le> ks ! j" by (simp add: sorted_nth_mono)
  ultimately show ?thesis using False assms by (simp add: count_le_takeWhile)
qed

lemma advance_sorted:
  "sorted rv \<Longrightarrow> pos \<le> count_le rv v \<Longrightarrow> advance rv v pos = count_le rv v"
proof (induction rv v pos rule: advance.induct)
  case (1 rv v pos)
  show ?case
  proof (cases "pos < length rv \<and> rv ! pos \<le> v")
    case True
    with "1.prems"(1) have "pos < count_le rv v"
      using nth_le_iff_count_le[of rv pos v] by blast
    then have "advance rv v (Suc pos) = count_le rv v"
      using "1.IH" True "1.prems"(1) by simp
    moreover from True have "advance rv v pos = advance rv v (Suc pos)"
      by (subst advance.simps) simp
    ultimately show ?thesis by simp
  next
    case False
    have "\<not> pos < count_le rv v"
    proof
      assume lt: "pos < count_le rv v"
      then have "pos < length rv" using count_le_length[of rv v] by linarith
      with lt "1.prems"(1) False show False
        using nth_le_iff_count_le[of rv pos v] by blast
    qed
    with "1.prems"(2) have "pos = count_le rv v" by linarith
    moreover from False have "advance rv v pos = pos"
      by (subst advance.simps) auto
    ultimately show ?thesis by simp
  qed
qed

lemma asof_join_backward_sorted:
  assumes "sorted rv" and "sorted lvs"
    and "\<forall>v\<in>set lvs. nat pos \<le> count_le rv v"
  shows "asof_join_backward lvs rv pos = map (\<lambda>v. int (count_le rv v) - 1) lvs"
  using assms(2,3)
proof (induction lvs arbitrary: pos)
  case Nil
  then show ?case by simp
next
  case (Cons lv lvs)
  have a: "advance rv lv (nat (if pos < 0 then 0 else pos)) = count_le rv lv"
    using Cons.prems(2) assms(1) by (intro advance_sorted) auto
  have "\<forall>v\<in>set lvs. nat (int (count_le rv lv) - 1) \<le> count_le rv v"
  proof
    fix v assume "v \<in> set lvs"
    with Cons.prems(1) have "lv \<le> v" by simp
    then have "count_le rv lv \<le> count_le rv v" by (rule count_le_mono)
    then show "nat (int (count_le rv lv) - 1) \<le> count_le rv v" by simp
  qed
  with Cons.IH[of "int (count_le rv lv) - 1"] Cons.prems(1) a
  show ?case by (simp add: Let_def)
qed


section \<open>Proofs: sorting and joining frames\<close>

lemma argsort_ok_mset: "argsort_ok a ks \<Longrightarrow> mset (a ks) = mset [0..<length ks]"
  unfolding argsort_ok_def by (metis mset_sort)

lemma argsort_ok_set: "argsort_ok a ks \<Longrightarrow> set (a ks) = {0..<length ks}"
  using argsort_ok_mset[of a ks] by (metis set_mset_mset set_upt)

lemma argsort_ok_length: "argsort_ok a ks \<Longrightarrow> length (a ks) = length ks"
  using argsort_ok_mset[of a ks] by (metis size_mset length_upt diff_zero)

lemma mset_sorted_rows:
  assumes "argsort_ok a (map date xs)"
  shows "mset (sorted_rows a xs) = mset xs"
proof -
  have "mset (sorted_rows a xs) = image_mset (\<lambda>i. xs ! i) (mset (a (map date xs)))"
    by (simp add: sorted_rows_def)
  also have "\<dots> = image_mset (\<lambda>i. xs ! i) (mset [0..<length xs])"
    using argsort_ok_mset[OF assms] by simp
  also have "\<dots> = mset (map (\<lambda>i. xs ! i) [0..<length xs])" by simp
  also have "\<dots> = mset xs" by (simp only: map_nth)
  finally show ?thesis .
qed

lemma length_sorted_rows: "argsort_ok a (map date xs) \<Longrightarrow> length (sorted_rows a xs) = length xs"
  using argsort_ok_length[of a "map date xs"] by (simp add: sorted_rows_def)

lemma set_sorted_rows: "argsort_ok a (map date xs) \<Longrightarrow> set (sorted_rows a xs) = set xs"
  using mset_sorted_rows[of a xs] by (metis set_mset_mset)

lemma sorted_sorted_rows:
  assumes "argsort_ok a (map date xs)"
  shows "sorted (map date (sorted_rows a xs))"
proof -
  have "map date (sorted_rows a xs) = map (\<lambda>i. map date xs ! i) (a (map date xs))"
    using argsort_ok_set[OF assms] by (simp add: sorted_rows_def)
  with assms show ?thesis by (simp add: argsort_ok_def)
qed

lemma take_rows_ok:
  assumes "set indexer \<subseteq> {0..<length xs}"
  shows "take_rows \<lparr>columns = cs, index = [0..<length xs], rows = xs\<rparr> indexer =
         Inr \<lparr>columns = cs, index = indexer, rows = map (\<lambda>i. xs ! i) indexer\<rparr>"
proof -
  have "list_all (\<lambda>i. i < length xs) indexer"
    using assms by (auto simp: list_all_iff)
  moreover have "map (\<lambda>i. fst (zip [0..<length xs] xs ! i)) indexer = indexer"
    using assms by (induction indexer) auto
  moreover have "map (\<lambda>i. snd (zip [0..<length xs] xs ! i)) indexer = map (\<lambda>i. xs ! i) indexer"
    using assms by (induction indexer) auto
  ultimately show ?thesis by (simp add: take_rows_def)
qed

lemma sort_values_ok:
  assumes "argsort_ok a (map date xs)" and "''date'' \<in> set cs"
  shows "sort_values a \<lparr>columns = cs, index = [0..<length xs], rows = xs\<rparr> =
         Inr \<lparr>columns = cs, index = a (map date xs), rows = sorted_rows a xs\<rparr>"
proof -
  have "set (a (map date xs)) \<subseteq> {0..<length xs}"
    using argsort_ok_set[OF assms(1)] by simp
  then show ?thesis
    using assms(2) by (simp add: sort_values_def take_rows_ok sorted_rows_def)
qed

lemma merge_asof_sorted:
  assumes "sorted (map date S')" and "sorted (map date P')"
    and "''date'' \<in> set cs" and "''date'' \<in> set cp"
  shows "merge_asof \<lparr>columns = cs, index = ixs, rows = S'\<rparr> \<lparr>columns = cp, index = ixp, rows = P'\<rparr> =
         Inr \<lparr>columns = cs @ filter (\<lambda>c. c \<noteq> ''date'') cp, index = [0..<length S'],
              rows = map (\<lambda>s. attach P' s (int (count_le (map date P') (date s)) - 1)) S'\<rparr>"
proof -
  have "asof_join_backward (map date S') (map date P') 0 =
        map (\<lambda>v. int (count_le (map date P') v) - 1) (map date S')"
    using assms(1,2) by (intro asof_join_backward_sorted) auto
  moreover have "map2 (attach P') S' (map (\<lambda>v. int (count_le (map date P') v) - 1) (map date S')) =
        map (\<lambda>s. attach P' s (int (count_le (map date P') (date s)) - 1)) S'"
    by (induction S') auto
  ultimately show ?thesis
    using assms by (simp add: merge_asof_def Let_def)
qed

lemma merge_df_rows:
  assumes "argsort_ok a (map date S)" and "argsort_ok a (map date P)"
  shows "merge_df a (sent_frame S) (price_frame P) =
         Inr \<lparr>columns = [''date'', ''polarity'', ''Close''], index = [0..<length S],
              rows = map (\<lambda>s. attach (sorted_rows a P) s
                            (int (count_le (map date (sorted_rows a P)) (date s)) - 1))
                         (sorted_rows a S)\<rparr>"
proof -
  have s: "sort_values a (sent_frame S) =
           Inr \<lparr>columns = [''date'', ''polarity''], index = a (map date S), rows = sorted_rows a S\<rparr>"
    unfolding sent_frame_def using assms(1) by (intro sort_values_ok) auto
  have p: "sort_values a (price_frame P) =
           Inr \<lparr>columns = [''date'', ''Close''], index = a (map date P), rows = sorted_rows a P\<rparr>"
    unfolding price_frame_def using assms(2) by (intro sort_values_ok) auto
  have m: "merge_asof \<lparr>columns = [''date'', ''polarity''], index = ixs, rows = sorted_rows a S\<rparr>
             \<lparr>columns = [''date'', ''Close''], index = ixp, rows = sorted_rows a P\<rparr> =
           Inr \<lparr>columns = [''date'', ''polarity'', ''Close''],
                index = [0..<length S],
                rows = map (\<lambda>s. attach (sorted_rows a P) s
                            (int (count_le (map date (sorted_rows a P)) (date s)) - 1))
                         (sorted_rows a S)\<rparr>" for ixs ixp
    using merge_asof_sorted[OF sorted_sorted_rows[OF assms(1)] sorted_sorted_rows[OF assms(2)],
        of "[''date'', ''polarity'']" "[''date'', ''Close'']" ixs ixp]
    by (simp add: length_sorted_rows[OF assms(1)])
  show ?thesis
    unfolding merge_df_def s p
    by (simp add: reset_index_def m)
qed


lemma backward_match_set: "set P = set P' \<Longrightarrow> backward_match P d c = backward_match P' d c"
  by (cases c) (simp_all add: backward_match_def)

lemma backward_match_sorted:
  assumes "sorted (map date P')"
  shows "backward_match P' d (merged_row.Close (attach P' s (int (count_le (map date P') d) - 1)))"
proof (cases "count_le (map date P') d = 0")
  case True
  have "d < date p" if "p \<in> set P'" for p
  proof -
    from that obtain j where j: "j < length P'" "P' ! j = p" by (auto simp: in_set_conv_nth)
    then have "\<not> map date P' ! j \<le> d"
      using nth_le_iff_count_le[OF assms, of j d] True by simp
    with j show ?thesis by simp
  qed
  with True show ?thesis by (simp add: backward_match_def attach_def)
next
  case False
  let ?k = "count_le (map date P') d"
  from False have k: "?k - 1 < length P'" "?k - 1 < ?k"
    using count_le_length[of "map date P'" d] by auto
  have le: "date (P' ! (?k - 1)) \<le> d"
    using nth_le_iff_count_le[OF assms, of "?k - 1" d] k by simp
  have mx: "date q \<le> date (P' ! (?k - 1))" if "q \<in> set P'" "date q \<le> d" for q
  proof -
    from that obtain j where j: "j < length P'" "P' ! j = q" by (auto simp: in_set_conv_nth)
    with that(2) have "j < ?k"
      using nth_le_iff_count_le[OF assms, of j d] by simp
    then have "j \<le> ?k - 1" by simp
    then have "map date P' ! j \<le> map date P' ! (?k - 1)"
      using assms k(1) by (intro sorted_nth_mono) auto
    with j k(1) show ?thesis by simp
  qed
  have "nat (int ?k - 1) = ?k - 1" by simp
  moreover have "\<not> int ?k - 1 < 0" using False by simp
  ultimately have c: "merged_row.Close (attach P' s (int ?k - 1)) = Some (price_row.Close (P' ! (?k - 1)))"
    by (simp add: attach_def)
  have "P' ! (?k - 1) \<in> set P'" using k(1) by simp
  with le mx show ?thesis
    unfolding c backward_match_def by auto
qed

lemma sent_of_attach: "sent_of (attach P' s pos) = s"
  by (simp add: sent_of_def attach_def)

text \<open>
  The stable indexer meets \<open>argsort_ok\<close> on every key column, leaves a sorted column
  in place, and is the only indexer that meets \<open>argsort_ok\<close> on a column without
  repeated keys: there every sort kind orders the rows as the stable one does.
\<close>

lemma stable_argsort_sorted:
  assumes "sorted ks"
  shows "stable_argsort ks = [0..<length ks]"
proof -
  have "map fst (zip ks [0..<length ks]) = ks" by simp
  with assms have "sort_key fst (zip ks [0..<length ks]) = zip ks [0..<length ks]"
    by (intro sort_key_id_if_sorted) simp
  then show ?thesis by (simp add: stable_argsort_def)
qed

lemma stable_argsort_ok: "argsort_ok stable_argsort ks"
proof -
  let ?zs = "zip ks [0..<length ks]"
  let ?L = "sort_key fst ?zs"
  have m: "mset (map snd ?L) = mset [0..<length ks]"
  proof -
    have "map snd ?zs = [0..<length ks]" by simp
    then have "mset (map snd ?zs) = mset [0..<length ks]" by (rule arg_cong)
    moreover have "mset (map snd ?L) = mset (map snd ?zs)"
      by (simp only: mset_map mset_sort)
    ultimately show ?thesis by (rule ssubst [rotated])
  qed
  have a: "sort (map snd ?L) = [0..<length ks]"
    using m by (intro properties_for_sort) simp_all
  have "\<forall>z\<in>set ?zs. ks ! snd z = fst z"
    by (auto simp: in_set_zip)
  then have "\<forall>z\<in>set ?L. ks ! snd z = fst z" by simp
  then have "map (\<lambda>i. ks ! i) (map snd ?L) = map fst ?L" by simp
  then have b: "sorted (map (\<lambda>i. ks ! i) (map snd ?L))"
    by (simp only: sorted_sort_key)
  from a b show ?thesis by (simp add: argsort_ok_def stable_argsort_def)
qed

lemma sorted_rows_stable:
  assumes "sorted (map date xs)" and "a (map date xs) = stable_argsort (map date xs)"
  shows "sorted_rows a xs = xs"
proof -
  have "a (map date xs) = [0..<length xs]"
    using stable_argsort_sorted [OF assms(1)] assms(2) by simp
  then show ?thesis by (simp add: sorted_rows_def map_nth)
qed

lemma argsort_ok_stable:
  "a ks = stable_argsort ks \<Longrightarrow> argsort_ok a ks"
  using stable_argsort_ok [of ks] by (simp add: argsort_ok_def)

lemma argsort_ok_sort:
  assumes "argsort_ok a ks"
  shows "map (\<lambda>i. ks ! i) (a ks) = sort ks"
proof -
  have "mset (map (\<lambda>i. ks ! i) (a ks)) = image_mset (\<lambda>i. ks ! i) (mset [0..<length ks])"
    using argsort_ok_mset [OF assms] by simp
  also have "\<dots> = mset (map (\<lambda>i. ks ! i) [0..<length ks])" by simp
  also have "\<dots> = mset ks" by (simp only: map_nth)
  finally have "mset (map (\<lambda>i. ks ! i) (a ks)) = mset ks" .
  moreover have "sorted (map (\<lambda>i. ks ! i) (a ks))" using assms by (simp add: argsort_ok_def)
  ultimately show ?thesis by (rule properties_for_sort [symmetric])
qed

lemma argsort_ok_distinct:
  assumes "argsort_ok a ks" and "distinct ks"
  shows "a ks = stable_argsort ks"
proof -
  have "map (\<lambda>i. ks ! i) (a ks) = map (\<lambda>i. ks ! i) (stable_argsort ks)"
    using argsort_ok_sort [OF assms(1)] argsort_ok_sort [OF stable_argsort_ok] by simp
  moreover have "inj_on (\<lambda>i. ks ! i) (set (a ks) \<union> set (stable_argsort ks))"
    using argsort_ok_set [OF assms(1)] argsort_ok_set [OF stable_argsort_ok [of ks]] assms(2)
    by (auto simp: inj_on_def nth_eq_iff_index_eq)
  ultimately show ?thesis by (simp add: inj_on_map_eq_map)
qed








lemma close_determined_distinct:
  assumes "distinct (map date P)"
  shows "close_determined P t"
proof -
  have "p = q" if "p \<in> set P" "q \<in> set P" "date p = date q" for p q
    using assms that by (meson distinct_map inj_onD)
  then show ?thesis
    unfolding close_determined_def latest_at_def by (metis order_antisym)
qed

section \<open>The aligner\<close>

text \<open>
  Claim C1 (join correctness). Whatever order \<open>S\<close> and \<open>P\<close> come in, and for every sort
  that meets \<open>argsort_ok\<close> on the two date columns, \<open>merge_df\<close> returns a frame whose
  rows are the sentiment points of \<open>S\<close> in date order, each with a \<open>Close\<close> that is the
  \<open>Close\<close> of a price point of \<open>P\<close> with the greatest date not after the row's date,
  and the missing value when no price point of \<open>P\<close> is dated at or before the row.
\<close>

theorem merge_df_join_correct:
  assumes "argsort_ok argsort (map date S)" and "argsort_ok argsort (map date P)"
  shows "\<exists>M. merge_df argsort (sent_frame S) (price_frame P) = Inr M \<and>
             mset (map sent_of (rows M)) = mset S \<and>
             sorted (map date (rows M)) \<and>
             (\<forall>m\<in>set (rows M). backward_match P (date m) (merged_row.Close m))"
proof -
  let ?P' = "sorted_rows argsort P"
  let ?S' = "sorted_rows argsort S"
  let ?f = "\<lambda>s. attach ?P' s (int (count_le (map date ?P') (date s)) - 1)"
  have sp: "sorted (map date ?P')" using assms(2) by (rule sorted_sorted_rows)
  have e: "map sent_of (map ?f ?S') = ?S'"
    by (simp add: sent_of_attach comp_def)
  have a: "mset (map sent_of (map ?f ?S')) = mset S"
    unfolding e by (rule mset_sorted_rows[OF assms(1)])
  have d: "map date (map ?f ?S') = map date ?S'"
    by (simp add: attach_def comp_def)
  have b: "sorted (map date (map ?f ?S'))"
    unfolding d by (rule sorted_sorted_rows[OF assms(1)])
  have c: "backward_match P (date m) (merged_row.Close m)" if "m \<in> set (map ?f ?S')" for m
  proof -
    from that obtain s where m: "m = ?f s" by auto
    then have "date m = date s" by (simp add: attach_def)
    with m show ?thesis
      using backward_match_sorted[OF sp, of "date s" s]
        backward_match_set[OF set_sorted_rows[OF assms(2)], symmetric] by simp
  qed
  let ?M = "\<lparr>columns = [''date'', ''polarity'', ''Close''], index = [0..<length S],
             rows = map ?f ?S'\<rparr>"
  have r: "rows ?M = map ?f ?S'" by simp
  have "merge_df argsort (sent_frame S) (price_frame P) = Inr ?M"
    by (rule merge_df_rows[OF assms])
  moreover have "mset (map sent_of (rows ?M)) = mset S"
    unfolding r by (rule a)
  moreover have "sorted (map date (rows ?M))"
    unfolding r by (rule b)
  moreover have "\<forall>m\<in>set (rows ?M). backward_match P (date m) (merged_row.Close m)"
    unfolding r using c by blast
  ultimately show ?thesis by blast
qed

theorem merge_df_join_correct_witness:
  "argsort_ok stable_argsort (map date [\<lparr>date = 0, polarity = 2::int\<rparr>, \<lparr>date = 10, polarity = -1\<rparr>]) \<and>
   argsort_ok stable_argsort
     (map date [\<lparr>date = -5, price_row.Close = 100::int\<rparr>, \<lparr>date = 5, price_row.Close = 105\<rparr>]) \<and>
   merge_df stable_argsort
     (sent_frame [\<lparr>date = 0, polarity = 2::int\<rparr>, \<lparr>date = 10, polarity = -1\<rparr>])
     (price_frame [\<lparr>date = -5, price_row.Close = 100::int\<rparr>, \<lparr>date = 5, price_row.Close = 105\<rparr>]) =
   Inr \<lparr>columns = [''date'', ''polarity'', ''Close''], index = [0, 1],
        rows = [\<lparr>date = 0, polarity = 2, Close = Some 100\<rparr>,
                \<lparr>date = 10, polarity = -1, Close = Some 105\<rparr>]\<rparr>"
proof -
  let ?S = "[\<lparr>date = 0, polarity = 2::int\<rparr>, \<lparr>date = 10, polarity = -1\<rparr>]"
  let ?P = "[\<lparr>date = -5, price_row.Close = 100::int\<rparr>, \<lparr>date = 5, price_row.Close = 105\<rparr>]"
  have h1: "argsort_ok stable_argsort (map date ?S)"
    by (simp add: argsort_ok_def stable_argsort_def upt_rec)
  have h2: "argsort_ok stable_argsort (map date ?P)"
    by (simp add: argsort_ok_def stable_argsort_def upt_rec)
  show ?thesis
    using h1 h2 merge_df_join_correct [OF h1 h2]
    by (simp add: merge_df_def sent_frame_def price_frame_def sort_values_def take_rows_def
        stable_argsort_def reset_index_def merge_asof_def attach_def advance.simps Let_def upt_rec)
qed

text \<open>
  Claim C2 (cardinality). For every sentiment sequence \<open>S\<close> and price sequence \<open>P\<close>,
  \<open>merge_df\<close> returns a frame with exactly as many rows as \<open>S\<close>, whatever prices are
  available; for the empty sentiment sequence (\<open>S = []\<close>) the merged frame has no rows.
\<close>

theorem merge_df_cardinality:
  assumes "argsort_ok argsort (map date S)" and "argsort_ok argsort (map date P)"
  shows "\<exists>M. merge_df argsort (sent_frame S) (price_frame P) = Inr M \<and>
             length (rows M) = length S"
  unfolding merge_df_rows [OF assms]
  by (simp add: length_sorted_rows [OF assms(1)])

theorem merge_df_cardinality_witness:
  "argsort_ok stable_argsort (map date ([] :: int sent_row list)) \<and>
   argsort_ok stable_argsort
     (map date [\<lparr>date = -5, price_row.Close = 100::int\<rparr>, \<lparr>date = 5, price_row.Close = 105\<rparr>]) \<and>
   merge_df stable_argsort (sent_frame ([] :: int sent_row list))
     (price_frame [\<lparr>date = -5, price_row.Close = 100::int\<rparr>, \<lparr>date = 5, price_row.Close = 105\<rparr>]) =
   Inr \<lparr>columns = [''date'', ''polarity'', ''Close''], index = [], rows = []\<rparr>"
proof -
  let ?S = "[] :: int sent_row list"
  let ?P = "[\<lparr>date = -5, price_row.Close = 100::int\<rparr>, \<lparr>date = 5, price_row.Close = 105\<rparr>]"
  have h1: "argsort_ok stable_argsort (map date ?S)"
    by (simp add: argsort_ok_def stable_argsort_def)
  have h2: "argsort_ok stable_argsort (map date ?P)"
    by (simp add: argsort_ok_def stable_argsort_def upt_rec)
  show ?thesis
    using h1 h2 merge_df_cardinality [OF h1 h2]
    by (simp add: merge_df_def sent_frame_def price_frame_def sort_values_def take_rows_def
        stable_argsort_def reset_index_def merge_asof_def attach_def advance.simps Let_def upt_rec)
qed

text \<open>
  Claim C3 (empty prices). When the price sequence is empty, \<open>merge_df\<close> does not raise:
  it returns a frame in which every row carries the missing value in \<open>Close\<close>.
\<close>

theorem merge_df_empty_prices:
  assumes "argsort_ok argsort (map date S)" and "argsort_ok argsort []"
  shows "\<exists>M. merge_df argsort (sent_frame S) (price_frame []) = Inr M \<and>
             map merged_row.Close (rows M) = replicate (length S) None"
proof -
  have e: "argsort_ok argsort (map date ([] :: 'b price_row list))"
    using assms(2) by simp
  have "sorted_rows argsort ([] :: 'b price_row list) = []"
    using length_sorted_rows [OF e] by simp
  then show ?thesis
    unfolding merge_df_rows [OF assms(1) e]
    by (simp add: attach_def count_le_def comp_def map_replicate_const
        length_sorted_rows [OF assms(1)])
qed

theorem merge_df_empty_prices_witness:
  "argsort_ok stable_argsort (map date [\<lparr>date = 0, polarity = 2::int\<rparr>, \<lparr>date = 10, polarity = -1\<rparr>]) \<and>
   argsort_ok stable_argsort [] \<and>
   merge_df stable_argsort
     (sent_frame [\<lparr>date = 0, polarity = 2::int\<rparr>, \<lparr>date = 10, polarity = -1\<rparr>])
     (price_frame ([] :: int price_row list)) =
   Inr \<lparr>columns = [''date'', ''polarity'', ''Close''], index = [0, 1],
        rows = [\<lparr>date = 0, polarity = 2, Close = None\<rparr>,
                \<lparr>date = 10, polarity = -1, Close = None\<rparr>]\<rparr>"
proof -
  let ?S = "[\<lparr>date = 0, polarity = 2::int\<rparr>, \<lparr>date = 10, polarity = -1\<rparr>]"
  have h1: "argsort_ok stable_argsort (map date ?S)"
    by (simp add: argsort_ok_def stable_argsort_def upt_rec)
  have h2: "argsort_ok stable_argsort []"
    by (simp add: argsort_ok_def stable_argsort_def)
  show ?thesis
    using h1 h2 merge_df_empty_prices [OF h1 h2, where ?'b = int]
    by (simp add: merge_df_def sent_frame_def price_frame_def sort_values_def take_rows_def
        stable_argsort_def reset_index_def merge_asof_def attach_def advance.simps Let_def upt_rec)
qed







section \<open>The scorer's output\<close>

lemma score_rows_representable:
  "\<forall>e\<in>set data. representable (created_utc e) \<Longrightarrow>
   score_rows representable polarity_of data rs =
   Inr (rs @ map (\<lambda>e. \<lparr>date = timestamp_ns (created_utc e),
                         polarity = polarity_of (item_text e)\<rparr>) data)"
  by (induction data arbitrary: rs) (simp_all add: to_datetime_def)

text \<open>
  Claim C5 (one point per item, sorted; as amended). For every non-empty sequence of
  raw items whose timestamps pandas can represent, \<open>analyze_sentiments\<close> returns a frame
  with exactly one row per item, empty-text items included (nothing is filtered: the
  rows are the scored items, rearranged), sorted non-decreasing by date.
\<close>

theorem analyze_sentiments_one_per_item:
  assumes "data \<noteq> []"
    and "\<forall>e\<in>set data. representable (created_utc e)"
    and "argsort_ok argsort (map (\<lambda>e. timestamp_ns (created_utc e)) data)"
  shows "\<exists>df. analyze_sentiments representable polarity_of argsort data = Inr df \<and>
              length (rows df) = length data \<and>
              sorted (map date (rows df)) \<and>
              mset (rows df) =
                mset (map (\<lambda>e. \<lparr>date = timestamp_ns (created_utc e),
                                   polarity = polarity_of (item_text e)\<rparr>) data)"
proof -
  let ?rs = "map (\<lambda>e. \<lparr>date = timestamp_ns (created_utc e),
                          polarity = polarity_of (item_text e)\<rparr>) data"
  have k: "map date ?rs = map (\<lambda>e. timestamp_ns (created_utc e)) data"
    by (simp add: comp_def)
  have ok: "argsort_ok argsort (map date ?rs)"
    unfolding k by (rule assms(3))
  have sc: "score_rows representable polarity_of data [] = Inr ?rs"
    using score_rows_representable [OF assms(2), of polarity_of "[]"] by simp
  have "analyze_sentiments representable polarity_of argsort data =
        sort_values argsort \<lparr>columns = [''date'', ''polarity''], index = [0..<length ?rs], rows = ?rs\<rparr>"
    using assms(1) by (simp add: analyze_sentiments_def sc DataFrame_def)
  also have "\<dots> = Inr \<lparr>columns = [''date'', ''polarity''], index = argsort (map date ?rs),
                        rows = sorted_rows argsort ?rs\<rparr>"
    using ok by (rule sort_values_ok) simp
  finally have "analyze_sentiments representable polarity_of argsort data =
        Inr \<lparr>columns = [''date'', ''polarity''], index = argsort (map date ?rs),
                        rows = sorted_rows argsort ?rs\<rparr>" .
  moreover have "length (sorted_rows argsort ?rs) = length data"
    using length_sorted_rows [OF ok] by simp
  moreover have "sorted (map date (sorted_rows argsort ?rs))"
    using ok by (rule sorted_sorted_rows)
  moreover have "mset (sorted_rows argsort ?rs) = mset ?rs"
    using ok by (rule mset_sorted_rows)
  ultimately show ?thesis by simp
qed

text \<open>
  The claim as stated fails on the empty sequence, where the sort raises for want of a
  \<open>date\<close> column, and on an item whose timestamp is out of range (here \<open>10^19\<close>
  seconds, beyond a signed 64-bit count), where the conversion raises.
\<close>

theorem analyze_sentiments_one_per_item_counterexample:
  "analyze_sentiments int64_seconds (\<lambda>t. 0 :: int) stable_argsort [] = Inl (KeyError ''date'') \<and>
   analyze_sentiments int64_seconds (\<lambda>t. 0 :: int) stable_argsort
     [\<lparr>item_text = ''a'', created_utc = 10000000000000000000\<rparr>] = Inl OutOfBoundsDatetime"
  by (simp add: analyze_sentiments_def DataFrame_def sort_values_def to_datetime_def
      int64_seconds_def)

theorem analyze_sentiments_one_per_item_witness:
  "[\<lparr>item_text = ''good'', created_utc = 20\<rparr>, \<lparr>item_text = [], created_utc = 10\<rparr>] \<noteq> [] \<and>
   int64_seconds 20 \<and> int64_seconds 10 \<and>
   analyze_sentiments int64_seconds (\<lambda>t. int (length t)) stable_argsort
     [\<lparr>item_text = ''good'', created_utc = 20\<rparr>, \<lparr>item_text = [], created_utc = 10\<rparr>] =
   Inr \<lparr>columns = [''date'', ''polarity''], index = [1, 0],
        rows = [\<lparr>date = 10000000000, polarity = 0\<rparr>, \<lparr>date = 20000000000, polarity = 4\<rparr>]\<rparr>"
proof -
  let ?data = "[\<lparr>item_text = ''good'', created_utc = 20\<rparr>, \<lparr>item_text = [], created_utc = 10\<rparr>]"
  have h1: "?data \<noteq> []" by simp
  have h2: "\<forall>e\<in>set ?data. int64_seconds (created_utc e)" by (simp add: int64_seconds_def)
  have h3: "argsort_ok stable_argsort (map (\<lambda>e. timestamp_ns (created_utc e)) ?data)"
    by (rule stable_argsort_ok)
  show ?thesis
    using h1 h2 analyze_sentiments_one_per_item [OF h1 h2 h3, of "\<lambda>t. int (length t)"]
    by (simp add: analyze_sentiments_def DataFrame_def sort_values_def take_rows_def
        stable_argsort_def to_datetime_def timestamp_ns_def int64_seconds_def Let_def upt_rec)
qed

text \<open>
  Claim C10 (empty input). On the empty sequence \<open>analyze_sentiments\<close> raises KeyError:
  the frame built from no rows has no \<open>date\<close> column to sort on. The caller does not
  reach it: with no data it stops at its guard, with the warning.
\<close>

theorem analyze_sentiments_empty_raises:
  "columns (DataFrame [''date'', ''polarity''] ([] :: 'p sent_row list)) = [] \<and>
   analyze_sentiments representable (polarity_of :: string \<Rightarrow> 'p) argsort [] =
     Inl (KeyError ''date'') \<and>
   run_analysis representable polarity_of argsort prices [] =
     Stopped ''No data returned from Pushshift.''"
  by (simp add: analyze_sentiments_def DataFrame_def sort_values_def run_analysis_def)

section \<open>merge_df has no side effect\<close>

lemma merge_df_call_value:
  assumes "s < length (sent_objs st)" and "p < length (price_objs st)"
  shows "result_value (merge_df_call argsort s p st) =
         merge_df argsort (sent_objs st ! s) (price_objs st ! p)"
proof (cases "sort_values argsort (sent_objs st ! s)")
  case (Inl e)
  then show ?thesis by (simp add: merge_df_call_def merge_df_def result_value_def)
next
  case f1: (Inr f1)
  show ?thesis
  proof (cases "sort_values argsort (price_objs st ! p)")
    case (Inl e)
    with f1 assms show ?thesis
      by (simp add: merge_df_call_def merge_df_def result_value_def new_sent_def Let_def)
  next
    case g1: (Inr g1)
    show ?thesis
    proof (cases "merge_asof (reset_index f1) (reset_index g1)")
      case (Inl e)
      with f1 g1 assms show ?thesis
        by (simp add: merge_df_call_def merge_df_def result_value_def new_sent_def new_price_def
            Let_def nth_append)
    next
      case (Inr m)
      with f1 g1 assms show ?thesis
        by (simp add: merge_df_call_def merge_df_def result_value_def new_sent_def new_price_def
            new_merged_def Let_def nth_append)
    qed
  qed
qed

lemma merge_df_call_preserved:
  "preserved st (snd (merge_df_call argsort s p st))"
  by (simp add: merge_df_call_def preserved_def new_sent_def new_price_def new_merged_def Let_def
      split: sum.splits)

lemma preserved_nth:
  assumes "preserved st st'"
  shows "s < length (sent_objs st) \<Longrightarrow> sent_objs st' ! s = sent_objs st ! s"
    and "p < length (price_objs st) \<Longrightarrow> price_objs st' ! p = price_objs st ! p"
    and "length (sent_objs st) \<le> length (sent_objs st')"
    and "length (price_objs st) \<le> length (price_objs st')"
proof -
  from assms have a: "take (length (sent_objs st)) (sent_objs st') = sent_objs st"
    and b: "take (length (price_objs st)) (price_objs st') = price_objs st"
    by (simp_all add: preserved_def)
  show "s < length (sent_objs st) \<Longrightarrow> sent_objs st' ! s = sent_objs st ! s"
    by (metis a nth_take)
  show "p < length (price_objs st) \<Longrightarrow> price_objs st' ! p = price_objs st ! p"
    by (metis b nth_take)
  show "length (sent_objs st) \<le> length (sent_objs st')"
    by (metis a length_take min.cobounded1 min.commute)
  show "length (price_objs st) \<le> length (price_objs st')"
    by (metis b length_take min.cobounded1 min.commute)
qed

text \<open>
  Claim C8 (pure and deterministic). A call of \<open>merge_df\<close> on two frame objects leaves
  every object of the store as it was (it only adds new ones); what it returns is
  the value of the function \<open>merge_df\<close> at the two input frames and depends on
  nothing else; and running it again on the same two objects, in the store the first
  run left behind, returns the same value.
\<close>

theorem merge_df_call_pure:
  assumes "s < length (sent_objs st)" and "p < length (price_objs st)"
    and "merge_df_call argsort s p st = (res, st')"
  shows "preserved st st' \<and>
         result_value (res, st') = merge_df argsort (sent_objs st ! s) (price_objs st ! p) \<and>
         result_value (merge_df_call argsort s p st') = result_value (res, st')"
proof -
  have pr: "preserved st st'"
    using merge_df_call_preserved [of st argsort s p] assms(3) by simp
  have v: "result_value (res, st') = merge_df argsort (sent_objs st ! s) (price_objs st ! p)"
    using merge_df_call_value [OF assms(1,2), of argsort] assms(3) by simp
  have s': "s < length (sent_objs st')" using preserved_nth(3) [OF pr] assms(1) by simp
  have p': "p < length (price_objs st')" using preserved_nth(4) [OF pr] assms(2) by simp
  have "result_value (merge_df_call argsort s p st') =
        merge_df argsort (sent_objs st' ! s) (price_objs st' ! p)"
    using s' p' by (rule merge_df_call_value)
  also have "\<dots> = merge_df argsort (sent_objs st ! s) (price_objs st ! p)"
    using preserved_nth(1) [OF pr assms(1)] preserved_nth(2) [OF pr assms(2)] by simp
  finally show ?thesis using pr v by simp
qed

theorem merge_df_call_pure_witness:
  "merge_df_call stable_argsort 0 0
     \<lparr>sent_objs = [sent_frame [\<lparr>date = 0, polarity = 2::int\<rparr>, \<lparr>date = 10, polarity = -1\<rparr>]],
      price_objs = [price_frame [\<lparr>date = -5, price_row.Close = 100::int\<rparr>, \<lparr>date = 5, price_row.Close = 105\<rparr>]],
      merged_objs = []\<rparr> =
   (Inr 0,
    \<lparr>sent_objs = [sent_frame [\<lparr>date = 0, polarity = 2::int\<rparr>, \<lparr>date = 10, polarity = -1\<rparr>],
                  \<lparr>columns = [''date'', ''polarity''], index = [0, 1],
                    rows = [\<lparr>date = 0, polarity = 2\<rparr>, \<lparr>date = 10, polarity = -1\<rparr>]\<rparr>,
                  \<lparr>columns = [''date'', ''polarity''], index = [0, 1],
                    rows = [\<lparr>date = 0, polarity = 2\<rparr>, \<lparr>date = 10, polarity = -1\<rparr>]\<rparr>],
      price_objs = [price_frame [\<lparr>date = -5, price_row.Close = 100::int\<rparr>, \<lparr>date = 5, price_row.Close = 105\<rparr>],
                   \<lparr>columns = [''date'', ''Close''], index = [0, 1],
                     rows = [\<lparr>date = -5, price_row.Close = 100\<rparr>, \<lparr>date = 5, price_row.Close = 105\<rparr>]\<rparr>,
                   \<lparr>columns = [''date'', ''Close''], index = [0, 1],
                     rows = [\<lparr>date = -5, price_row.Close = 100\<rparr>, \<lparr>date = 5, price_row.Close = 105\<rparr>]\<rparr>],
      merged_objs = [\<lparr>columns = [''date'', ''polarity'', ''Close''], index = [0, 1],
                      rows = [\<lparr>date = 0, polarity = 2, Close = Some 100\<rparr>,
                              \<lparr>date = 10, polarity = -1, Close = Some 105\<rparr>]\<rparr>]\<rparr>)"
proof -
  let ?st = "\<lparr>sent_objs = [sent_frame [\<lparr>date = 0, polarity = 2::int\<rparr>, \<lparr>date = 10, polarity = -1\<rparr>]],
      price_objs = [price_frame [\<lparr>date = -5, price_row.Close = 100::int\<rparr>, \<lparr>date = 5, price_row.Close = 105\<rparr>]],
      merged_objs = []\<rparr>"
  obtain res st' where r: "merge_df_call stable_argsort 0 0 ?st = (res, st')"
    by (cases "merge_df_call stable_argsort 0 0 ?st") auto
  have h1: "0 < length (sent_objs ?st)" by simp
  have h2: "0 < length (price_objs ?st)" by simp
  show ?thesis
    using merge_df_call_pure [OF h1 h2 r]
    by (simp add: merge_df_call_def new_sent_def new_price_def new_merged_def sent_frame_def
        price_frame_def sort_values_def take_rows_def stable_argsort_def reset_index_def
        merge_asof_def attach_def advance.simps Let_def upt_rec)
qed

section \<open>The collector's failure path\<close>

lemma snd_get_items:
  "snd (get_items net t l k sub issued) = issued @ [mk_request t l k sub]"
  by (simp add: get_items_def Let_def)

lemma get_items_error_status:
  assumes "net issued (mk_request t l k sub) = Response st body" and "error_status st"
  shows "get_items net t l k sub issued = (Inl (HTTPError st), issued @ [mk_request t l k sub])"
  using assms by (simp add: get_items_def Let_def)

lemma sub_loop_issued:
  "sub_loop net t l k subs results issued = (res, issued') \<Longrightarrow>
   \<exists>n\<le>length subs. issued' = issued @ take n (map (mk_request t l k) subs) \<and>
      ((\<exists>v. res = Inr v) \<longrightarrow> n = length subs)"
proof (induction subs arbitrary: results issued)
  case Nil
  then show ?case by auto
next
  case (Cons sub subs)
  let ?req = "mk_request t l k sub"
  obtain r where g: "get_items net t l k sub issued = (r, issued @ [?req])"
    using snd_get_items [of net t l k sub issued] by (cases "get_items net t l k sub issued") auto
  show ?case
  proof (cases r)
    case (Inl e)
    with Cons.prems g have "res = Inl e" "issued' = issued @ [?req]" by auto
    then show ?thesis by (intro exI [of _ 1]) auto
  next
    case (Inr items)
    show ?thesis
    proof (cases "append_items k items results")
      case (Inl e)
      with Cons.prems g Inr have "res = Inl e" "issued' = issued @ [?req]" by auto
      then show ?thesis by (intro exI [of _ 1]) auto
    next
      case Inr2: (Inr results')
      with Cons.prems g Inr
      have "sub_loop net t l k subs results' (issued @ [?req]) = (res, issued')" by simp
      from Cons.IH [OF this] obtain n where n: "n \<le> length subs"
        "issued' = (issued @ [?req]) @ take n (map (mk_request t l k) subs)"
        "(\<exists>v. res = Inr v) \<longrightarrow> n = length subs" by blast
      then show ?thesis by (intro exI [of _ "Suc n"]) auto
    qed
  qed
qed

lemma sub_loop_failure:
  "sub_loop net t l k subs results issued = (res, issued') \<Longrightarrow>
   length issued \<le> i \<Longrightarrow> i < length issued' \<Longrightarrow>
   net (take i issued') (issued' ! i) = Response st body \<Longrightarrow> error_status st \<Longrightarrow>
   res = Inl (HTTPError st) \<and> Suc i = length issued'"
proof (induction subs arbitrary: results issued)
  case Nil
  then show ?case by auto
next
  case (Cons sub subs)
  let ?req = "mk_request t l k sub"
  obtain r where g: "get_items net t l k sub issued = (r, issued @ [?req])"
    using snd_get_items [of net t l k sub issued] by (cases "get_items net t l k sub issued") auto
  from sub_loop_issued [OF Cons.prems(1)] obtain n where
    n: "issued' = issued @ take n (map (mk_request t l k) (sub # subs))" by blast
  with Cons.prems(2,3) have n0: "n \<noteq> 0" by auto
  then obtain m where m: "n = Suc m" by (cases n) auto
  have pre: "issued' = (issued @ [?req]) @ take m (map (mk_request t l k) subs)"
    using n m by simp
  show ?case
  proof (cases "i = length issued")
    case True
    then have "take i issued' = issued" "issued' ! i = ?req"
      using pre by (simp_all add: nth_append)
    with Cons.prems(4) have "net issued ?req = Response st body" by simp
    then have "get_items net t l k sub issued = (Inl (HTTPError st), issued @ [?req])"
      using Cons.prems(5) by (rule get_items_error_status)
    with Cons.prems(1) have "res = Inl (HTTPError st)" "issued' = issued @ [?req]" by auto
    with True show ?thesis by simp
  next
    case False
    with Cons.prems(2) have i: "length (issued @ [?req]) \<le> i" by simp
    show ?thesis
    proof (cases r)
      case (Inl e)
      with Cons.prems(1) g have "issued' = issued @ [?req]" by auto
      with Cons.prems(3) i show ?thesis by simp
    next
      case (Inr items)
      show ?thesis
      proof (cases "append_items k items results")
        case (Inl e)
        with Cons.prems(1) g Inr have "issued' = issued @ [?req]" by auto
        with Cons.prems(3) i show ?thesis by simp
      next
        case Inr2: (Inr results')
        with Cons.prems(1) g Inr
        have "sub_loop net t l k subs results' (issued @ [?req]) = (res, issued')" by simp
        from Cons.IH [OF this i Cons.prems(3,4,5)] show ?thesis .
      qed
    qed
  qed
qed

lemma kind_loop_issued:
  "kind_loop net t l kinds subs results issued = (res, issued') \<Longrightarrow>
   \<exists>n. issued' = issued @ take n (concat (map (\<lambda>k. map (mk_request t l k) subs) kinds))"
proof (induction kinds arbitrary: results issued)
  case Nil
  then show ?case by auto
next
  case (Cons k kinds)
  let ?A = "map (mk_request t l k) subs"
  let ?rest = "concat (map (\<lambda>k. map (mk_request t l k) subs) kinds)"
  obtain r issued1 where s: "sub_loop net t l k subs results issued = (r, issued1)"
    by (cases "sub_loop net t l k subs results issued") auto
  from sub_loop_issued [OF s] obtain m where m: "m \<le> length subs"
    "issued1 = issued @ take m ?A" "(\<exists>v. r = Inr v) \<longrightarrow> m = length subs" by blast
  show ?case
  proof (cases r)
    case (Inl e)
    with Cons.prems s have "issued' = issued1" by auto
    with m have "issued' = issued @ take m (?A @ ?rest)" by simp
    then have "issued' = issued @ take m
        (concat (map (\<lambda>k. map (mk_request t l k) subs) (k # kinds)))" by simp
    then show ?thesis by (rule exI)
  next
    case (Inr results')
    with Cons.prems s have "kind_loop net t l kinds subs results' issued1 = (res, issued')" by simp
    from Cons.IH [OF this] obtain n where "issued' = issued1 @ take n ?rest" by blast
    moreover from Inr m have "issued1 = issued @ ?A" by simp
    ultimately have "issued' = issued @ take (length ?A + n) (?A @ ?rest)" by simp
    then have "issued' = issued @ take (length ?A + n)
        (concat (map (\<lambda>k. map (mk_request t l k) subs) (k # kinds)))" by simp
    then show ?thesis by (rule exI)
  qed
qed

lemma kind_loop_failure:
  "kind_loop net t l kinds subs results issued = (res, issued') \<Longrightarrow>
   length issued \<le> i \<Longrightarrow> i < length issued' \<Longrightarrow>
   net (take i issued') (issued' ! i) = Response st body \<Longrightarrow> error_status st \<Longrightarrow>
   res = Inl (HTTPError st) \<and> Suc i = length issued'"
proof (induction kinds arbitrary: results issued)
  case Nil
  then show ?case by auto
next
  case (Cons k kinds)
  obtain r issued1 where s: "sub_loop net t l k subs results issued = (r, issued1)"
    by (cases "sub_loop net t l k subs results issued") auto
  show ?case
  proof (cases r)
    case (Inl e)
    with Cons.prems(1) s have "res = r" "issued' = issued1" by auto
    with s Cons.prems(2-5) show ?thesis
      using sub_loop_failure [of net t l k subs results issued res issued' i st body] by simp
  next
    case (Inr results')
    with Cons.prems(1) s have kl: "kind_loop net t l kinds subs results' issued1 = (res, issued')"
      by simp
    from kind_loop_issued [OF kl] obtain n where ext: "issued' = issued1 @ take n
      (concat (map (\<lambda>k. map (mk_request t l k) subs) kinds))" by blast
    show ?thesis
    proof (cases "i < length issued1")
      case True
      then have "take i issued' = take i issued1" "issued' ! i = issued1 ! i"
        using ext by (simp_all add: nth_append)
      with Cons.prems(4) have "net (take i issued1) (issued1 ! i) = Response st body" by simp
      from sub_loop_failure [OF s Cons.prems(2) True this Cons.prems(5)] Inr
      show ?thesis by simp
    next
      case False
      then have "length issued1 \<le> i" by simp
      from Cons.IH [OF kl this Cons.prems(3,4,5)] show ?thesis .
    qed
  qed
qed

text \<open>
  Claim C6 (a failed request is fatal). A request fails with a non-success status when
  its response carries a status that \<open>raise_for_status\<close> rejects (400 to 599). If any
  request issued during a run of \<open>fetch_reddit_data\<close> gets such a response, the run
  raises that HTTPError, so no results are returned, partial or otherwise; the failing
  request is the last one issued, and the requests issued are the planned requests up
  to it, each once: nothing is retried and nothing is sent after the failure.
\<close>

theorem fetch_reddit_data_fails_on_error_status:
  assumes "fetch_reddit_data net ticker subreddits post_limit = (res, issued)"
    and "i < length issued"
    and "net (take i issued) (issued ! i) = Response st body"
    and "error_status st"
  shows "res = Inl (HTTPError st) \<and> Suc i = length issued \<and>
         issued = take (Suc i) (planned_requests ticker subreddits post_limit)"
proof -
  have kl: "kind_loop net ticker post_limit [submission, comment] subreddits [] [] = (res, issued)"
    using assms(1) by (simp add: fetch_reddit_data_def)
  have a: "res = Inl (HTTPError st) \<and> Suc i = length issued"
    using kind_loop_failure [OF kl _ assms(2,3,4)] by simp
  from kind_loop_issued [OF kl] obtain n where
    n: "issued = take n (planned_requests ticker subreddits post_limit)"
    by (auto simp: planned_requests_def)
  then have "length issued = min (length (planned_requests ticker subreddits post_limit)) n"
    by (metis length_take)
  then have "take (length issued) (planned_requests ticker subreddits post_limit) =
             take n (planned_requests ticker subreddits post_limit)"
    by (simp add: min_def split: if_splits)
  with n a show ?thesis by simp
qed


theorem fetch_reddit_data_fails_on_error_status_witness:
  "fetch_reddit_data
     (\<lambda>issued req. if issued = []
        then Response 200 (Some (JObj [(''data'', JArr [JObj [(''title'', JStr ''a''), (''created_utc'', JInt 5)]])]))
        else Response 503 None)
     ''BTC'' [''CryptoCurrency''] 50 =
   (Inl (HTTPError 503), planned_requests ''BTC'' [''CryptoCurrency''] 50)"
proof -
  let ?net = "\<lambda>issued req. if issued = []
        then Response 200 (Some (JObj [(''data'', JArr [JObj [(''title'', JStr ''a''), (''created_utc'', JInt 5)]])]))
        else Response 503 None"
  let ?plan = "planned_requests ''BTC'' [''CryptoCurrency''] 50"
  have h1: "fetch_reddit_data ?net ''BTC'' [''CryptoCurrency''] 50 = (Inl (HTTPError 503), ?plan)"
    by (simp add: fetch_reddit_data_def get_items_def planned_requests_def error_status_def
        raw_item_of_def dict_get_def py_or_def Let_def)
  have h2: "1 < length ?plan" by (simp add: planned_requests_def)
  have h3: "?net (take 1 ?plan) (?plan ! 1) = Response 503 None"
    by (simp add: planned_requests_def)
  have h4: "error_status 503" by (simp add: error_status_def)
  show ?thesis
    using fetch_reddit_data_fails_on_error_status [OF h1 h2 h3 h4] h1 by simp
qed

section \<open>The collector's normalisation\<close>

lemma str_or_null_py_or:
  "str_or_null (map_of d key) \<Longrightarrow> py_or (dict_get d key JNull) (JStr []) = JStr (str_field d key)"
  by (cases "map_of d key" rule: str_or_null.cases)
     (auto simp: py_or_def dict_get_def str_field_def)

lemma str_only_get:
  "str_only (map_of d key) \<Longrightarrow> dict_get d key (JStr []) = JStr (str_field d key)"
  by (cases "map_of d key" rule: str_only.cases) (auto simp: dict_get_def str_field_def)

lemma int_only_get:
  "int_only (map_of d ''created_utc'') \<Longrightarrow>
   dict_get d ''created_utc'' (JInt 0) = JInt (spec_timestamp d)"
  by (cases "map_of d ''created_utc''" rule: int_only.cases)
     (auto simp: dict_get_def spec_timestamp_def)

text \<open>
  Claim C7 (defaults, as amended). For every fetched item whose present fields have
  their expected JSON types, the dict the collector appends has a string under
  \<open>"text"\<close> and an integer under \<open>"created_utc"\<close>: absent text fields count as the empty
  string (a post's title and body are joined by a space, a comment's body is used as
  it is) and an absent timestamp counts as 0.
\<close>

theorem raw_item_of_defaults:
  assumes "well_typed knd d"
  shows "raw_item_of knd (JObj d) =
         Inr (JObj [(''text'', JStr (spec_text knd d)), (''created_utc'', JInt (spec_timestamp d))])"
proof (cases knd)
  case submission
  with assms have "str_or_null (map_of d ''title'')" "str_or_null (map_of d ''selftext'')"
    "int_only (map_of d ''created_utc'')" by (simp_all add: well_typed_def)
  with submission show ?thesis
    by (simp add: raw_item_of_def str_or_null_py_or int_only_get spec_text_def)
next
  case comment
  with assms have "str_only (map_of d ''body'')" "int_only (map_of d ''created_utc'')"
    by (simp_all add: well_typed_def)
  with comment show ?thesis
    by (simp add: raw_item_of_def str_only_get int_only_get spec_text_def)
qed

text \<open>
  Without the condition on the present fields the claim fails: a comment whose \<open>body\<close>
  and \<open>created_utc\<close> are present and null yields a dict with \<open>None\<close> under both keys.
  Only absent keys get the defaults on this path.
\<close>

theorem raw_item_of_defaults_counterexample:
  "raw_item_of comment (JObj [(''body'', JNull), (''created_utc'', JNull)]) =
   Inr (JObj [(''text'', JNull), (''created_utc'', JNull)])"
  by (simp add: raw_item_of_def dict_get_def)

theorem raw_item_of_defaults_witness:
  "well_typed submission [(''title'', JStr ''BTC up''), (''selftext'', JNull)] \<and>
   raw_item_of submission (JObj [(''title'', JStr ''BTC up''), (''selftext'', JNull)]) =
   Inr (JObj [(''text'', JStr ''BTC up ''), (''created_utc'', JInt 0)])"
proof -
  have h: "well_typed submission [(''title'', JStr ''BTC up''), (''selftext'', JNull)]"
    by (simp add: well_typed_def)
  show ?thesis
    using h raw_item_of_defaults [OF h]
    by (simp add: spec_text_def spec_timestamp_def str_field_def)
qed

end
